theory Spec2Isabelle
  imports Main "HOL-Library.Char_ord" "HOL-Library.List_Lexorder" "HOL-Library.Product_Lexorder"
    "HOL-Library.Sublist"
begin

section \<open>Geometry kernel: \<^verbatim>\<open>convex_hull\<close>\<close>

text \<open>
  Points are pairs of coordinates. The Python function works on any numbers that support
  subtraction, multiplication and comparison; the model takes the coordinates from an
  ordered ring with exact arithmetic (\<open>int\<close>, \<open>rat\<close>, \<open>real\<close>). \<^verbatim>\<open>build_map\<close> calls the
  function with Python floats; the rounding of their products and differences is not
  modelled. Tuples compare lexicographically, as Python's do.
\<close>

type_synonym 'a point = "'a \<times> 'a"

text \<open>\<^verbatim>\<open>cross(o,a,b)\<close>, the nested function of \<^verbatim>\<open>convex_hull\<close>.\<close>

definition cross :: "('a::linordered_idom) point \<Rightarrow> 'a point \<Rightarrow> 'a point \<Rightarrow> 'a" where
  "cross p0 a b = (fst a - fst p0) * (snd b - snd p0) - (snd a - snd p0) * (fst b - fst p0)"

text \<open>
  The inner \<^verbatim>\<open>while len(lower)>=2 and cross(lower[-2],lower[-1],p)<=0: lower.pop()\<close>.
  The list is in the order of the Python list: its last element is the top of the stack.
\<close>

function pop_while :: "('a::linordered_idom) point list \<Rightarrow> 'a point \<Rightarrow> 'a point list" where
  "pop_while lower p =
     (if length lower \<ge> 2 \<and> cross (lower ! (length lower - 2)) (last lower) p \<le> 0
      then pop_while (butlast lower) p
      else lower)"
  by pat_completeness auto
termination
  by (relation "measure (\<lambda>(lower, p). length lower)") auto

declare pop_while.simps [simp del]

text \<open>One pass \<^verbatim>\<open>for p in pts: while ...: lower.pop(); lower.append(p)\<close>, from the empty list.\<close>

definition chain_step :: "('a::linordered_idom) point list \<Rightarrow> 'a point \<Rightarrow> 'a point list" where
  "chain_step lower p = pop_while lower p @ [p]"

definition chain :: "('a::linordered_idom) point list \<Rightarrow> 'a point list" where
  "chain pts = foldl chain_step [] pts"

text \<open>
  \<^verbatim>\<open>pts = sorted(set(points))\<close> is the list of the distinct points in ascending order;
  \<^verbatim>\<open>lower[:-1]\<close> is \<open>butlast lower\<close>.
\<close>

definition convex_hull :: "('a::linordered_idom) point list \<Rightarrow> 'a point list" where
  "convex_hull points =
     (let pts = sort (remdups points) in
      if length pts < 3 then pts
      else
        let lower = chain pts;
            upper = chain (rev pts)
        in butlast lower @ butlast upper)"


section \<open>Strings\<close>

text \<open>
  Strings are lists of characters and are taken to be ASCII text. \<open>is_space\<close> is the set of
  ASCII characters that \<^verbatim>\<open>str.strip()\<close> removes and that \<^verbatim>\<open>\s\<close> matches; \<open>is_word\<close> is
  \<^verbatim>\<open>\w\<close> on ASCII (letters, digits, underscore); \<open>lower\<close> is \<^verbatim>\<open>str.lower()\<close> on ASCII.
\<close>

definition is_space :: "char \<Rightarrow> bool" where
  "is_space c \<longleftrightarrow>
     (CHR 0x09 \<le> c \<and> c \<le> CHR 0x0D) \<or> (CHR 0x1C \<le> c \<and> c \<le> CHR 0x1F) \<or> c = CHR '' ''"

definition is_digit :: "char \<Rightarrow> bool" where
  "is_digit c \<longleftrightarrow> CHR ''0'' \<le> c \<and> c \<le> CHR ''9''"

definition is_upper :: "char \<Rightarrow> bool" where
  "is_upper c \<longleftrightarrow> CHR ''A'' \<le> c \<and> c \<le> CHR ''Z''"

definition is_lower :: "char \<Rightarrow> bool" where
  "is_lower c \<longleftrightarrow> CHR ''a'' \<le> c \<and> c \<le> CHR ''z''"

definition is_word :: "char \<Rightarrow> bool" where
  "is_word c \<longleftrightarrow> is_digit c \<or> is_upper c \<or> is_lower c \<or> c = CHR ''_''"

definition lower_char :: "char \<Rightarrow> char" where
  "lower_char c = (if is_upper c then char_of (of_char c + (32::nat)) else c)"

definition lower :: "string \<Rightarrow> string" where
  "lower s = map lower_char s"

definition strip :: "string \<Rightarrow> string" where
  "strip s = rev (dropWhile is_space (rev (dropWhile is_space s)))"

text \<open>\<^verbatim>\<open>sep.join(xs)\<close>.\<close>

fun join :: "string \<Rightarrow> string list \<Rightarrow> string" where
  "join sep [] = []"
| "join sep [x] = x"
| "join sep (x # y # ys) = x @ sep @ join sep (y # ys)"

section \<open>Rows of the data frame\<close>

text \<open>
  A cell is \<open>None\<close> when pandas holds a missing value there (\<^verbatim>\<open>pd.notna\<close> is false) and
  \<open>Some s\<close> otherwise, \<open>s\<close> being \<^verbatim>\<open>str\<close> of the value. \<^verbatim>\<open>str\<close> of a missing value is
  \<^verbatim>\<open>'nan'\<close>. A row carries the cells of the named columns and, in column order, the
  cells of the four detected column groups. \<open>node_type\<close> and \<open>scid\<close> are read through
  \<^verbatim>\<open>astype(str)\<close> only, so the row holds that string. A job name is text or missing.
  The latitude and the longitude are numbers or missing.
\<close>

type_synonym cell = "string option"

definition str_cell :: "cell \<Rightarrow> string" where
  "str_cell c = (case c of None \<Rightarrow> ''nan'' | Some s \<Rightarrow> s)"

datatype view_mode = MR | Utility

record 'a row =
  job_name :: cell
  node_type :: string
  scid :: string
  latitude :: "'a option"
  longitude :: "'a option"
  level_cells :: "cell list"
  cost_cells :: "cell list"
  warning_cells :: "cell list"
  company_cells :: "cell list"

section \<open>Configuration\<close>

definition STYLE_COLORS :: "(string \<times> string) list" where
  "STYLE_COLORS =
     [(''No MR'', ''green''), (''Comm MR'', ''yellow''), (''Simple Power MR'', ''orange''),
      (''Complex Power MR'', ''red''), (''Deferred'', ''gray''), (''Cannot Attach'', ''black'')]"

definition MISSING_COLOR :: string where "MISSING_COLOR = ''purple''"
definition WARNING_COLOR :: string where "WARNING_COLOR = ''aqua''"

definition PALETTE :: "string list" where
  "PALETTE = [''blue'', ''darkblue'', ''teal'', ''navy'', ''magenta'', ''lime'']"

definition MULTI_COMP_COLOR :: string where "MULTI_COMP_COLOR = ''red''"

section \<open>The company colour table of the Utility view\<close>

text \<open>The nested function \<^verbatim>\<open>canon\<close>.\<close>

definition canon :: "string \<Rightarrow> string" where
  "canon v0 =
     (let v = strip v0 in
      if lower v \<in> set [''magic valley elec coop'', ''magic valley electric coop'']
      then ''Magic Valley Electric Coop''
      else v)"

text \<open>
  The list \<^verbatim>\<open>comps\<close>: rows in row order, company cells in column order; a cell whose
  stripped text is empty or is \<^verbatim>\<open>nan\<close> in any letter case is skipped.
\<close>

definition row_comps :: "'a row \<Rightarrow> string list" where
  "row_comps r =
     concat (map (\<lambda>c. let v = strip (str_cell c) in
                       if v \<noteq> [] \<and> lower v \<noteq> ''nan'' then [canon v] else [])
                 (company_cells r))"

definition comps :: "'a row list \<Rightarrow> string list" where
  "comps df = concat (map row_comps df)"

text \<open>The dictionary \<^verbatim>\<open>comp_color\<close> is an association list in insertion order.\<close>

definition known_colors :: "(string \<times> string) list" where
  "known_colors =
     [(''Magic Valley Electric Coop'', ''#98ff98''), (''AEP'', ''orange''),
      (''Brownsville Public Utilities'', ''aqua''), (''Central Bradford PA'', ''yellow'')]"

text \<open>
  The loop \<^verbatim>\<open>for comp in uniq\<close> with its state, the dictionary and \<^verbatim>\<open>idx\<close>.
\<close>

fun assign_colors :: "(string \<times> string) list \<Rightarrow> nat \<Rightarrow> string list \<Rightarrow> (string \<times> string) list" where
  "assign_colors cc idx [] = cc"
| "assign_colors cc idx (name # rest) =
     (if map_of cc name = None
      then assign_colors (cc @ [(name, PALETTE ! (idx mod length PALETTE))]) (idx + 1) rest
      else assign_colors cc idx rest)"

definition comp_color :: "'a row list \<Rightarrow> (string \<times> string) list" where
  "comp_color df = (let uniq = sort (remdups (comps df)) in assign_colors known_colors 0 uniq)"

section \<open>Classifier\<close>

text \<open>
  The markers that \<^verbatim>\<open>build_map\<close> adds to the map, one constructor for each folium class it
  uses, with the arguments that vary.
\<close>

datatype 'a marker =
    RegularPolygonMarker (location: "'a point") (sides: nat) (color: string)
      (tooltip: string) (popup: "cell option")
  | CircleMarker (location: "'a point") (color: string) (tooltip: string) (popup: "cell option")
  | DivIconMarker (location: "'a point") (html: string) (tooltip: string)

text \<open>The marker categories of the specification, one for each branch of the classifier.\<close>

datatype category =
    StyledLevel string | MissingLevel | Warning
  | SingleCompany string | MultiCompany | NoCompany

text \<open>
  The test \<^verbatim>\<open>pd.notna(row.get(c)) and str(row.get(c)).strip()\<close> on a cell, and the list
  \<^verbatim>\<open>[str(row[c]) for c in cols if ...]\<close> of the cells of a column group that pass it.
\<close>

definition present :: "cell \<Rightarrow> bool" where
  "present c \<longleftrightarrow> c \<noteq> None \<and> strip (str_cell c) \<noteq> []"

definition nonblank :: "cell list \<Rightarrow> string list" where
  "nonblank cells = map str_cell (filter present cells)"

text \<open>\<^verbatim>\<open>first_val(row, cols)\<close>.\<close>

definition first_val :: "cell list \<Rightarrow> string" where
  "first_val cells = (case nonblank cells of [] \<Rightarrow> [] | v # _ \<Rightarrow> v)"

definition companies :: "view_mode \<Rightarrow> 'a row \<Rightarrow> string list" where
  "companies view_mode r =
     (let raw_comps = nonblank (company_cells r) in
      if view_mode = MR then (if raw_comps \<noteq> [] then [hd raw_comps] else [])
      else map canon raw_comps)"

text \<open>
  The branch that the Utility-view chain \<^verbatim>\<open>if len(companies) > 1 ... elif len(companies) == 1
  ... else\<close> takes, and the branch of the MR view.
\<close>

definition classify :: "view_mode \<Rightarrow> 'a row \<Rightarrow> category" where
  "classify view_mode r =
     (if view_mode = MR then
        (if nonblank (warning_cells r) \<noteq> [] then Warning
         else (case map_of STYLE_COLORS (first_val (level_cells r)) of
                 Some c \<Rightarrow> StyledLevel (first_val (level_cells r))
               | None \<Rightarrow> MissingLevel))
      else
        (let cs = companies view_mode r in
         if length cs > 1 then MultiCompany
         else if length cs = 1 then SingleCompany (cs ! 0)
         else NoCompany))"

text \<open>\<^verbatim>\<open>x or '<i>None</i>'\<close>.\<close>

definition or_none :: "string \<Rightarrow> string" where
  "or_none s = (if s = [] then ''<i>None</i>'' else s)"

definition point_of :: "'a row \<Rightarrow> 'a point" where
  "point_of r = (the (latitude r), the (longitude r))"

text \<open>
  The body of the loop \<^verbatim>\<open>for _, row in df.iterrows()\<close>: the marker of one row. \<open>cc\<close> is
  the colour table, which only the Utility view reads.
\<close>

definition marker_of :: "view_mode \<Rightarrow> (string \<times> string) list \<Rightarrow> 'a row \<Rightarrow> 'a marker" where
  "marker_of view_mode cc r =
     (let warnings = nonblank (warning_cells r);
          cs = companies view_mode r
      in
      if view_mode = MR then
        (let lvl = first_val (level_cells r);
             cost = first_val (cost_cells r);
             tip = ''<b>SCID:</b> '' @ scid r @ ''<br>'' @ ''<b>MR Level:</b> '' @ or_none lvl
                   @ ''<br>'' @ ''<b>Cost:</b> '' @ or_none cost
         in
         if warnings \<noteq> [] then
           RegularPolygonMarker (point_of r) 4 WARNING_COLOR
             (tip @ ''<br><b>Warnings:</b> '' @ join ''; '' warnings) (Some (job_name r))
         else
           CircleMarker (point_of r)
             (case map_of STYLE_COLORS lvl of Some c \<Rightarrow> c | None \<Rightarrow> MISSING_COLOR)
             tip (Some (job_name r)))
      else
        (let tip = ''<b>SCID:</b> '' @ scid r @ ''<br>'' @ ''<b>Companies:</b> ''
                   @ or_none (join '', '' cs)
         in
         case classify view_mode r of
           MultiCompany \<Rightarrow> RegularPolygonMarker (point_of r) 4 MULTI_COMP_COLOR tip None
         | SingleCompany name \<Rightarrow>
             CircleMarker (point_of r)
               (case map_of cc name of Some c \<Rightarrow> c | None \<Rightarrow> PALETTE ! 0) tip None
         | _ \<Rightarrow>
             DivIconMarker (point_of r)
               (''<div style='' @ [CHR 0x22] @ ''color:red;font-size:16px;font-weight:bold;''
                  @ [CHR 0x22] @ ''>X</div>'') tip))"

section \<open>Record filter\<close>

text \<open>
  The regular expressions of the filter, each used with \<^verbatim>\<open>re.IGNORECASE\<close>. A literal is
  matched against the lower-case text. \<open>contains_ci\<close> is \<^verbatim>\<open>re.search\<close> for a literal
  without word boundaries (\<^verbatim>\<open>copy\<close>).
\<close>

fun contains_ci :: "string \<Rightarrow> string \<Rightarrow> bool" where
  "contains_ci pat [] = (pat = [])"
| "contains_ci pat (c # cs) = (prefix pat (lower (c # cs)) \<or> contains_ci pat cs)"

text \<open>
  \<^verbatim>\<open>\b\<close> before a literal that starts with a word character holds when the character
  before it, if any, is not a word character; \<^verbatim>\<open>\b\<close> after a literal that ends with a word
  character holds when the character after it, if any, is not one.
\<close>

definition word_before :: "char option \<Rightarrow> bool" where
  "word_before prev = (case prev of None \<Rightarrow> False | Some c \<Rightarrow> is_word c)"

definition word_after :: "string \<Rightarrow> bool" where
  "word_after s = (case s of [] \<Rightarrow> False | c # _ \<Rightarrow> is_word c)"

text \<open>
  \<^verbatim>\<open>\bw\b\<close> matches at the start of \<open>s\<close>, where \<open>prev\<close> is the character before \<open>s\<close>.
\<close>

definition word_at :: "string \<Rightarrow> char option \<Rightarrow> string \<Rightarrow> bool" where
  "word_at w prev s \<longleftrightarrow>
     prefix w (lower s) \<and> \<not> word_before prev \<and> \<not> word_after (drop (length w) s)"

text \<open>\<^verbatim>\<open>re.search(r'\bw\b', s, re.IGNORECASE)\<close>, trying each position from the left.\<close>

fun search_word :: "string \<Rightarrow> char option \<Rightarrow> string \<Rightarrow> bool" where
  "search_word w prev [] = False"
| "search_word w prev (c # cs) = (word_at w prev (c # cs) \<or> search_word w (Some c) cs)"

definition contains_pla :: "string \<Rightarrow> bool" where
  "contains_pla s = search_word ''pla'' None s"

text \<open>
  \<^verbatim>\<open>re.sub(r'\s*\bPLA\b', '', s, flags=re.IGNORECASE)\<close>. At a position the greedy \<^verbatim>\<open>\s*\<close>
  takes the whole run of white space; after at least one white-space character the first
  \<^verbatim>\<open>\b\<close> holds, and after none it looks at the character before. A match is dropped and
  the scan goes on behind it; otherwise one character is kept.
\<close>

function strip_pla :: "char option \<Rightarrow> string \<Rightarrow> string" where
  "strip_pla prev [] = []"
| "strip_pla prev (c # cs) =
     (let rest = dropWhile is_space (c # cs) in
      if prefix ''pla'' (lower rest) \<and> (is_space c \<or> \<not> word_before prev)
         \<and> \<not> word_after (drop 3 rest)
      then strip_pla (Some (rest ! 2)) (drop 3 rest)
      else c # strip_pla (Some c) cs)"
  by pat_completeness auto
termination
proof (relation "measure (\<lambda>(prev, s). length s)", goal_cases)
  case 1
  show ?case by simp
next
  case (2 prev c cs rest)
  have "length (dropWhile is_space (c # cs)) \<le> length (c # cs)"
    by (rule length_dropWhile_le)
  moreover from 2 have "3 \<le> length rest"
    by (auto simp: prefix_def lower_def dest!: arg_cong [where f = length])
  ultimately show ?case using 2 by simp
next
  case 3
  then show ?case by simp
qed

declare strip_pla.simps [simp del]

text \<open>The columns the filter reads from a row.\<close>

definition is_copy :: "'a row \<Rightarrow> bool" where
  "is_copy r = (case job_name r of None \<Rightarrow> False | Some s \<Rightarrow> contains_ci ''copy'' s)"

definition is_pole :: "'a row \<Rightarrow> bool" where
  "is_pole r \<longleftrightarrow> lower (node_type r) = ''pole''"

definition has_position :: "'a row \<Rightarrow> bool" where
  "has_position r \<longleftrightarrow> latitude r \<noteq> None \<and> longitude r \<noteq> None"

text \<open>
  \<^verbatim>\<open>str.match(r'^\d+$')\<close>: one or more digits up to the end of the text, where \<^verbatim>\<open>$\<close> also
  matches before a final line feed.
\<close>

definition scid_ok :: "'a row \<Rightarrow> bool" where
  "scid_ok r \<longleftrightarrow>
     (let ds = takeWhile is_digit (scid r); rest = dropWhile is_digit (scid r)
      in ds \<noteq> [] \<and> (rest = [] \<or> rest = [CHR 0x0A]))"

definition is_pla :: "'a row \<Rightarrow> bool" where
  "is_pla r = (case job_name r of None \<Rightarrow> False | Some s \<Rightarrow> contains_pla s)"

definition base_job :: "'a row \<Rightarrow> cell" where
  "base_job r = map_option (strip_pla None) (job_name r)"

text \<open>
  The Utility-view rule: \<^verbatim>\<open>has_pla\<close> is the list of the base names of the rows that contain
  \<^verbatim>\<open>PLA\<close>; a row stays when its base name is in the list and it contains \<^verbatim>\<open>PLA\<close>, or when
  its base name is not in the list.
\<close>

definition pla_rule :: "'a row list \<Rightarrow> 'a row list" where
  "pla_rule df =
     (let has_pla = remdups (map base_job (filter is_pla df)) in
      filter (\<lambda>r. (base_job r \<in> set has_pla \<and> is_pla r) \<or> base_job r \<notin> set has_pla) df)"

text \<open>Lines 58 to 66 of \<^verbatim>\<open>build_map\<close>: the rule for the job names with \<^verbatim>\<open>PLA\<close>.\<close>

definition pla_filter :: "view_mode \<Rightarrow> 'a row list \<Rightarrow> 'a row list" where
  "pla_filter view_mode df =
     (if view_mode = Utility then pla_rule df else filter (\<lambda>r. \<not> is_pla r) df)"

text \<open>
  The Utility-view mask: some company cell, read through \<^verbatim>\<open>fillna('').astype(str)\<close>,
  contains \<^verbatim>\<open>AT&T\<close> or \<^verbatim>\<open>Charter\<close> as a word.
\<close>

definition excluded_company :: "'a row \<Rightarrow> bool" where
  "excluded_company r \<longleftrightarrow>
     (\<exists>c \<in> set (company_cells r).
        let s = (case c of None \<Rightarrow> [] | Some t \<Rightarrow> t)
        in search_word ''at&t'' None s \<or> search_word ''charter'' None s)"

text \<open>Lines 53 to 74 of \<^verbatim>\<open>build_map\<close>.\<close>

definition record_filter :: "view_mode \<Rightarrow> 'a row list \<Rightarrow> 'a row list" where
  "record_filter view_mode df0 =
     (let df1 = filter (\<lambda>r. \<not> is_copy r) df0;
          df2 = filter is_pole df1;
          df3 = filter has_position df2;
          df4 = filter scid_ok df3;
          df5 = pla_filter view_mode df4;
          df6 = (if view_mode = Utility then filter (\<lambda>r. \<not> excluded_company r) df5 else df5)
      in df6)"

section \<open>Job aggregator\<close>

text \<open>
  A feature of \<^verbatim>\<open>hull_features\<close>: the label and the ring of coordinates; the other
  properties of the feature are constants.
\<close>

record 'a job_hull =
  label :: string
  ring :: "'a point list"

text \<open>
  \<^verbatim>\<open>df.groupby('job_name')\<close>: the groups in ascending order of the job name, each with its
  rows in the order of the data frame; rows without a job name are in no group.
\<close>

definition job_groups :: "'a row list \<Rightarrow> (string \<times> 'a row list) list" where
  "job_groups df =
     map (\<lambda>job. (job, filter (\<lambda>r. job_name r = Some job) df))
       (sort (remdups (concat (map (\<lambda>r. case job_name r of None \<Rightarrow> [] | Some job \<Rightarrow> [job]) df))))"

text \<open>The point \<^verbatim>\<open>(float(r['longitude']), float(r['latitude']))\<close> of a row that has both.\<close>

definition lon_lat :: "'a row \<Rightarrow> 'a point" where
  "lon_lat r = (the (longitude r), the (latitude r))"

text \<open>The body of the loop over the groups: nothing, or one feature.\<close>

definition group_hull :: "string \<times> ('a::linordered_idom) row list \<Rightarrow> 'a job_hull list" where
  "group_hull g =
     (let pts = map lon_lat (snd g) in
      if length pts < 3 then []
      else (let hull = convex_hull pts in [\<lparr>label = fst g, ring = hull @ [hull ! 0]\<rparr>]))"

definition aggregate :: "('a::linordered_idom) row list \<Rightarrow> 'a job_hull list" where
  "aggregate df = concat (map group_hull (job_groups df))"

section \<open>\<^verbatim>\<open>build_map\<close>\<close>

text \<open>
  The map that \<^verbatim>\<open>build_map\<close> saves: the markers in row order, the job hulls, and the imported
  markup layers. The message boxes it shows are returned beside the map.
\<close>

datatype dialog = ShowError string string | ShowWarning string string | ShowInfo string string

record ('a, 'g) scene =
  markers :: "'a marker list"
  hulls :: "'a job_hull list"
  overlays :: "'g list"

text \<open>
  The markup file is outside the model. What the statements \<^verbatim>\<open>open\<close>, \<^verbatim>\<open>json.load\<close> and
  \<^verbatim>\<open>folium.GeoJson\<close> at the head of the \<^verbatim>\<open>try\<close> block do is an argument: \<open>None\<close> when no
  path was given, \<open>Some (Inl e)\<close> when one of them raised an exception whose text is \<open>e\<close>,
  and \<open>Some (Inr g)\<close> when they built the layer \<open>g\<close>. The calls that draw on the map are
  taken to return.
\<close>

definition build_map ::
  "('a::linordered_idom) row list \<Rightarrow> view_mode \<Rightarrow> (string + 'g) option
     \<Rightarrow> ('a, 'g) scene \<times> dialog list" where
  "build_map df0 view_mode markup =
     (let df = record_filter view_mode df0;
          cc = (if view_mode = Utility then comp_color df else []);
          ms = map (marker_of view_mode cc) df;
          hull_features = aggregate df
      in case markup of
           None \<Rightarrow> (\<lparr>markers = ms, hulls = hull_features, overlays = []\<rparr>, [])
         | Some (Inr g) \<Rightarrow> (\<lparr>markers = ms, hulls = hull_features, overlays = [g]\<rparr>, [])
         | Some (Inl e) \<Rightarrow>
             (\<lparr>markers = ms, hulls = hull_features, overlays = []\<rparr>,
              [ShowWarning ''Markup Error''
                 (''Could not load markup file:'' @ [CHR 0x0A] @ e)]))"

section \<open>\<^verbatim>\<open>on_generate\<close>\<close>

text \<open>
  The checks of \<^verbatim>\<open>on_generate\<close> on the column names of the data frame, from line 441 on.
  The result is the error box that ends the run, or the four column groups with which
  \<^verbatim>\<open>build_map\<close> is called. The message of the first box joins the Python set \<^verbatim>\<open>base\<close>,
  whose iteration order is not fixed: \<open>base_iter\<close> is that order.
\<close>

definition base :: "string list" where
  "base = [''job_name'', ''latitude'', ''longitude'', ''node_type'', ''scid'']"

definition level_cols :: "string list \<Rightarrow> string list" where
  "level_cols columns = filter (\<lambda>c. prefix ''mr_level'' (lower c)) columns"

definition cost_cols :: "string list \<Rightarrow> string list" where
  "cost_cols columns = filter (\<lambda>c. sublist ''mr_cost'' (lower c)) columns"

definition warning_cols :: "string list \<Rightarrow> string list" where
  "warning_cols columns = filter (\<lambda>c. sublist ''warning'' (lower c)) columns"

definition company_cols :: "string list \<Rightarrow> string list" where
  "company_cols columns = filter (\<lambda>c. sublist ''company'' (lower c)) columns"

definition on_generate ::
  "string list \<Rightarrow> string list
     \<Rightarrow> dialog + (string list \<times> string list \<times> string list \<times> string list)" where
  "on_generate base_iter columns =
     (if \<not> set base \<subseteq> set columns
      then Inl (ShowError ''Missing Columns'' (''Need: '' @ join '', '' base_iter))
      else if level_cols columns = [] \<or> cost_cols columns = []
      then Inl (ShowError ''Missing MR cols'' ''Need MR_level* and MR_cost* cols'')
      else if company_cols columns = []
      then Inl (ShowError ''Missing Company cols'' ''No company columns found'')
      else Inr (level_cols columns, cost_cols columns, warning_cols columns,
                company_cols columns))"

section \<open>Auxiliary notions and example inputs\<close>

text \<open>
  The canonical company names of a data frame that are not keys of the initial dictionary,
  in ascending order without repetition.
\<close>

definition unknown_names :: "'a row list \<Rightarrow> string list" where
  "unknown_names df =
     filter (\<lambda>n. n \<notin> fst ` set known_colors) (sorted_list_of_set (set (comps df)))"

text \<open>A valid pole row with the given job name and company cells, at the given place.\<close>

definition pole :: "string \<Rightarrow> int \<Rightarrow> int \<Rightarrow> cell list \<Rightarrow> int row" where
  "pole job lat lon cs =
     \<lparr>job_name = Some job, node_type = ''pole'', scid = ''17'',
      latitude = Some lat, longitude = Some lon,
      level_cells = [Some ''No MR''], cost_cells = [Some ''100''], warning_cells = [None],
      company_cells = cs\<rparr>"

definition ex_same_twice :: "int row" where
  "ex_same_twice = pole ''J1'' 26 (-97) [Some ''AEP'', Some '' AEP'']"

definition ex_zeta_alpha :: "int row list" where
  "ex_zeta_alpha = [pole ''J1'' 26 (-97) [Some ''Zeta''], pole ''J1'' 27 (-97) [Some ''Alpha'']]"

definition ex_nan_name :: "int row" where
  "ex_nan_name = pole ''J1'' 26 (-97) [Some ''NAN'']"

definition ex_pla :: "int row list" where
  "ex_pla =
     [pole ''jobA'' 26 (-97) [Some ''AEP''], pole ''jobA PLA'' 26 (-98) [Some ''AEP''],
      pole ''jobB'' 27 (-97) [None], pole ''jobA'' 27 (-98) [Some ''AT&T'']]"

definition ex_jobB :: "int row list" where
  "ex_jobB = [pole ''jobB'' 27 (-97) [None], pole ''jobB'' 27 (-98) [Some ''AEP'']]"

text \<open>The four row-wise rules at the head of the filter, taken together.\<close>

definition basic_ok :: "'a row \<Rightarrow> bool" where
  "basic_ok r \<longleftrightarrow> \<not> is_copy r \<and> is_pole r \<and> has_position r \<and> scid_ok r"

text \<open>Three rows of one job at one place.\<close>

definition ex_one_place :: "int row list" where
  "ex_one_place =
     [pole ''J1'' 26 (-97) [Some ''AEP''], pole ''J1'' 26 (-97) [Some ''AEP''],
      pole ''J1'' 26 (-97) [Some ''AEP'']]"

text \<open>The three rows of the end-to-end example of the specification.\<close>

definition ex_triangle :: "int row list" where
  "ex_triangle =
     [pole ''J1'' 10 10 [Some ''AEP''], pole ''J1'' 10 11 [Some ''AEP''],
      pole ''J1'' 11 10 [Some ''AEP'']]"

text \<open>Column names with everything but \<^verbatim>\<open>scid\<close>.\<close>

definition ex_columns :: "string list" where
  "ex_columns =
     [''job_name'', ''latitude'', ''longitude'', ''node_type'', ''MR_level_1'', ''MR_cost_1'',
      ''company_1'']"

text \<open>
  Something the input needs is absent: a base column, every MR-level column, every MR-cost
  column, or every company column.
\<close>

definition something_missing :: "string list \<Rightarrow> bool" where
  "something_missing columns \<longleftrightarrow>
     \<not> set base \<subseteq> set columns \<or> level_cols columns = [] \<or> cost_cols columns = []
     \<or> company_cols columns = []"

section \<open>Notions for the correctness of the hull\<close>



text \<open>
  The direction of a scan: the lower chain takes the points in ascending order, the upper
  chain in descending order. \<open>before up a b\<close> says that \<open>a\<close> comes before \<open>b\<close> in the scan.
\<close>

definition before :: "bool \<Rightarrow> ('a::linorder) point \<Rightarrow> 'a point \<Rightarrow> bool" where
  "before up a b = (if up then a < b else b < a)"

text \<open>
  The stack of a scan with its top in front, for the proofs: \<open>pop_stack\<close> is \<open>pop_while\<close>
  and \<open>push\<close> is \<open>chain_step\<close> on the reversed list.
\<close>

fun pop_stack :: "('a::linordered_idom) point list \<Rightarrow> 'a point \<Rightarrow> 'a point list" where
  "pop_stack (b # a # st) p = (if cross a b p \<le> 0 then pop_stack (a # st) p else b # a # st)"
| "pop_stack st p = st"

definition push :: "('a::linordered_idom) point list \<Rightarrow> 'a point \<Rightarrow> 'a point list" where
  "push st p = p # pop_stack st p"

text \<open>The directed edges of the chain held by a stack, and the points on their left.\<close>

definition stack_edges :: "'a list \<Rightarrow> ('a \<times> 'a) list" where
  "stack_edges st = zip (tl st) st"

definition supports :: "('a::linordered_idom) point list \<Rightarrow> 'a point set \<Rightarrow> bool" where
  "supports st P \<longleftrightarrow> (\<forall>e \<in> set (stack_edges st). \<forall>p \<in> P. 0 \<le> cross (fst e) (snd e) p)"


text \<open>
  The invariant of a scan that has passed the points \<open>P\<close>: the stack holds some of them,
  latest on top; its top is the latest and its bottom the earliest of all; and every point
  of \<open>P\<close> is on the left of every edge of the chain, or on its line.
\<close>

definition stack_ok :: "bool \<Rightarrow> ('a::linordered_idom) point set \<Rightarrow> 'a point list \<Rightarrow> bool" where
  "stack_ok up P st \<longleftrightarrow>
     st \<noteq> [] \<and> set st \<subseteq> P \<and> sorted_wrt (\<lambda>x y. before up y x) st
     \<and> (\<forall>p \<in> P. p = hd st \<or> before up p (hd st))
     \<and> (\<forall>p \<in> P. p = last st \<or> before up (last st) p)
     \<and> supports st P"


text \<open>The three rows of the end-to-end example of the specification, with their MR levels.\<close>

definition ex_spec :: "int row list" where
  "ex_spec =
     [\<lparr>job_name = Some ''J1'', node_type = ''pole'', scid = ''1'',
       latitude = Some 10, longitude = Some 10,
       level_cells = [Some ''No MR''], cost_cells = [None], warning_cells = [None],
       company_cells = [None]\<rparr>,
      \<lparr>job_name = Some ''J1'', node_type = ''pole'', scid = ''2'',
       latitude = Some 10, longitude = Some 11,
       level_cells = [Some ''Complex Power MR''], cost_cells = [None], warning_cells = [None],
       company_cells = [None]\<rparr>,
      \<lparr>job_name = Some ''J1'', node_type = ''pole'', scid = ''3'',
       latitude = Some 11, longitude = Some 10,
       level_cells = [Some ''No MR''], cost_cells = [None], warning_cells = [None],
       company_cells = [None]\<rparr>]"

section \<open>Facts about strings and the colour table\<close>

lemma strip_idem: "strip (strip s) = strip s"
proof -
  define u where "u = dropWhile is_space s"
  define w where "w = dropWhile is_space (rev u)"
  have u: "rev u = takeWhile is_space (rev u) @ w"
    by (simp add: w_def)
  then have u': "u = rev w @ rev (takeWhile is_space (rev u))"
    by (metis rev_append rev_rev_ident)
  have "dropWhile is_space (rev w) = rev w"
  proof (cases "w = []")
    case True
    then show ?thesis by simp
  next
    case False
    then have "hd (rev w) = hd u" using u' by (metis hd_append2 rev_is_Nil_conv)
    moreover have "u \<noteq> []" using False u' by auto
    then have "\<not> is_space (hd u)" unfolding u_def by (rule hd_dropWhile)
    ultimately show ?thesis by (simp add: dropWhile_eq_self_iff)
  qed
  moreover have "dropWhile is_space w = w" by (simp add: w_def)
  ultimately show ?thesis by (simp add: strip_def u_def [symmetric] w_def [symmetric])
qed

lemma canon_strip: "canon (strip s) = canon s"
  by (simp add: canon_def strip_idem)

lemma lower_canon_nan: "lower (strip s) = ''nan'' \<Longrightarrow> lower (canon s) = ''nan''"
  by (simp add: canon_def)

lemma map_of_snoc:
  "map_of (cc @ [(n, v)]) k =
     (case map_of cc k of None \<Rightarrow> (if k = n then Some v else None) | Some x \<Rightarrow> Some x)"
  by (auto simp: map_add_def split: option.splits)

text \<open>A key that is in the dictionary keeps its colour through the loop.\<close>

lemma assign_colors_keeps:
  "map_of cc k = Some c \<Longrightarrow> map_of (assign_colors cc idx names) k = Some c"
proof (induction names arbitrary: cc idx)
  case Nil
  then show ?case by simp
next
  case (Cons a names)
  then have "map_of (cc @ [(a, PALETTE ! (idx mod length PALETTE))]) k = Some c"
    by (simp only: map_of_snoc) simp
  with Cons show ?case by (simp del: map_of_append)
qed

text \<open>Every name the loop visits is a key afterwards.\<close>

lemma assign_colors_keys:
  "n \<in> set names \<Longrightarrow> map_of (assign_colors cc idx names) n \<noteq> None"
proof (induction names arbitrary: cc idx)
  case Nil
  then show ?case by simp
next
  case (Cons a names)
  show ?case
  proof (cases "n = a")
    case True
    show ?thesis
    proof (cases "map_of cc a")
      case None
      then have "map_of (cc @ [(a, PALETTE ! (idx mod length PALETTE))]) a
                 = Some (PALETTE ! (idx mod length PALETTE))"
        by (simp only: map_of_snoc) simp
      from assign_colors_keeps [OF this] None True show ?thesis
        by (simp del: map_of_append)
    next
      case (Some c)
      from assign_colors_keeps [OF this] Some True show ?thesis by simp
    qed
  next
    case False
    with Cons show ?thesis by (simp del: map_of_append)
  qed
qed

text \<open>
  The names that are not keys yet receive the palette colours one after the other, in
  the order of the list the loop runs over, starting at \<open>idx\<close>.
\<close>

lemma assign_colors_fresh:
  "distinct names \<Longrightarrow> i < length (filter (\<lambda>n. map_of cc n = None) names) \<Longrightarrow>
   map_of (assign_colors cc idx names) (filter (\<lambda>n. map_of cc n = None) names ! i)
     = Some (PALETTE ! ((idx + i) mod length PALETTE))"
proof (induction names arbitrary: cc idx i)
  case Nil
  then show ?case by simp
next
  case (Cons a names)
  show ?case
  proof (cases "map_of cc a = None")
    case False
    with Cons show ?thesis by auto
  next
    case True
    let ?cc = "cc @ [(a, PALETTE ! (idx mod length PALETTE))]"
    have same: "filter (\<lambda>n. map_of ?cc n = None) names = filter (\<lambda>n. map_of cc n = None) names"
    proof (rule filter_cong [OF refl])
      fix n assume "n \<in> set names"
      then have "n \<noteq> a" using Cons.prems(1) by auto
      then show "(map_of ?cc n = None) = (map_of cc n = None)"
        by (simp only: map_of_snoc) (simp split: option.splits)
    qed
    show ?thesis
    proof (cases i)
      case 0
      have "map_of ?cc a = Some (PALETTE ! (idx mod length PALETTE))"
        using True by (simp only: map_of_snoc) simp
      from assign_colors_keeps [OF this] show ?thesis
        using True 0 by (simp del: map_of_append)
    next
      case (Suc j)
      have "j < length (filter (\<lambda>n. map_of ?cc n = None) names)"
        using Cons.prems(2) True Suc same by simp
      from Cons.IH [OF _ this, of "idx + 1"] Cons.prems(1)
      show ?thesis using True Suc same by (simp del: map_of_append)
    qed
  qed
qed

lemma row_comps_subset: "r \<in> set df \<Longrightarrow> set (row_comps r) \<subseteq> set (comps df)"
  by (auto simp: comps_def)

lemma comp_color_keys: "n \<in> set (comps df) \<Longrightarrow> map_of (comp_color df) n \<noteq> None"
  by (simp add: comp_color_def assign_colors_keys)

text \<open>The one company of a single-company row, when it is not \<^verbatim>\<open>nan\<close>, is in \<^verbatim>\<open>comps\<close>.\<close>

lemma single_in_row_comps:
  assumes "filter present (company_cells r) = [c]" and "lower (canon (str_cell c)) \<noteq> ''nan''"
  shows "canon (str_cell c) \<in> set (row_comps r)"
proof -
  have "c \<in> set (filter present (company_cells r))" using assms(1) by simp
  then have c: "c \<in> set (company_cells r)" and p: "present c" by auto
  from p have ne: "strip (str_cell c) \<noteq> []" by (simp add: present_def)
  from assms(2) have nn: "lower (strip (str_cell c)) \<noteq> ''nan''"
    using lower_canon_nan by blast
  have "canon (strip (str_cell c)) \<in> set (row_comps r)"
    unfolding row_comps_def using c ne nn by (auto simp: Let_def intro!: bexI [of _ c])
  then show ?thesis by (simp add: canon_strip)
qed

lemma classify_utility_cases:
  "classify Utility r =
     (case filter present (company_cells r) of
        [] \<Rightarrow> NoCompany
      | [c] \<Rightarrow> SingleCompany (canon (str_cell c))
      | _ \<Rightarrow> MultiCompany)"
  by (cases "filter present (company_cells r)" rule: list.exhaust;
      cases "tl (filter present (company_cells r))")
     (auto simp: classify_def companies_def nonblank_def Let_def)

section \<open>Facts about the record filter\<close>

lemma pla_rule_subset: "set (pla_rule df) \<subseteq> set df"
  by (auto simp: pla_rule_def Let_def)

text \<open>
  A row that contains \<^verbatim>\<open>PLA\<close> always passes the Utility-view rule, and the list
  \<^verbatim>\<open>has_pla\<close> of a smaller data frame is smaller; so the rule keeps every row of a data
  frame all of whose rows passed the rule on a larger one.
\<close>

lemma pla_rule_stable:
  assumes "set df' \<subseteq> set df" and "set df' \<subseteq> set (pla_rule df)"
  shows "pla_rule df' = df'"
proof -
  have "(base_job r \<in> set (remdups (map base_job (filter is_pla df'))) \<and> is_pla r)
        \<or> base_job r \<notin> set (remdups (map base_job (filter is_pla df')))"
    if "r \<in> set df'" for r
  proof (cases "is_pla r")
    case True
    then show ?thesis by blast
  next
    case False
    from that assms(2) have "r \<in> set (pla_rule df)" by blast
    with False have "base_job r \<notin> set (map base_job (filter is_pla df))"
      by (auto simp: pla_rule_def Let_def)
    with assms(1) have "base_job r \<notin> set (map base_job (filter is_pla df'))" by auto
    then show ?thesis by simp
  qed
  then show ?thesis
    unfolding pla_rule_def Let_def by (simp only: filter_id_conv) blast
qed

lemma pla_filter_subset: "set (pla_filter view_mode df) \<subseteq> set df"
  using pla_rule_subset by (auto simp: pla_filter_def)

lemma pla_filter_stable:
  assumes "set df' \<subseteq> set df" and "set df' \<subseteq> set (pla_filter view_mode df)"
  shows "pla_filter view_mode df' = df'"
proof (cases view_mode)
  case Utility
  with assms pla_rule_stable [of df' df] show ?thesis by (simp add: pla_filter_def)
next
  case MR
  with assms(2) show ?thesis by (auto simp: pla_filter_def filter_id_conv)
qed

lemma jobA_facts:
  "strip_pla None ''jobA'' = ''jobA''" "strip_pla None ''jobA PLA'' = ''jobA''"
  "\<not> contains_pla ''jobA''" "contains_pla ''jobA PLA''"
  by code_simp+

lemma row_jobA:
  "job_name r = Some ''jobA'' \<Longrightarrow> base_job r = Some ''jobA'' \<and> \<not> is_pla r"
  by (simp add: base_job_def is_pla_def jobA_facts)

lemma row_jobA_PLA:
  "job_name r = Some ''jobA PLA'' \<Longrightarrow> base_job r = Some ''jobA'' \<and> is_pla r"
  by (simp add: base_job_def is_pla_def jobA_facts)

lemma record_filter_subset: "set (record_filter view_mode df) \<subseteq> set df"
  using pla_filter_subset [of view_mode "filter scid_ok (filter has_position (filter is_pole (filter (\<lambda>r. \<not> is_copy r) df)))"]
  by (auto simp: record_filter_def Let_def)

text \<open>What the filter is, with the four row-wise rules in front taken together.\<close>

lemma record_filter_alt:
  "record_filter view_mode df =
     filter (\<lambda>r. view_mode = Utility \<longrightarrow> \<not> excluded_company r)
       (pla_filter view_mode (filter basic_ok df))"
proof -
  have "filter scid_ok (filter has_position (filter is_pole (filter (\<lambda>r. \<not> is_copy r) df)))
        = filter basic_ok df"
    by (auto simp: basic_ok_def intro: filter_cong)
  then show ?thesis
    by (cases view_mode) (simp_all add: record_filter_def Let_def)
qed

section \<open>Correctness of the monotone chain scan\<close>


lemma wedge_trans:
  fixes ux :: "'a::linordered_idom"
  assumes u: "0 < ux \<or> (ux = 0 \<and> 0 < uy)"
    and v: "0 < vx \<or> (vx = 0 \<and> 0 < vy)"
    and w: "0 < wx \<or> (wx = 0 \<and> 0 < wy)"
    and uv: "0 \<le> ux * vy - uy * vx"
    and vw: "0 \<le> vx * wy - vy * wx"
  shows "0 \<le> ux * wy - uy * wx"
proof (cases "0 < vx")
  case True
  have "vx * (ux * wy - uy * wx) = wx * (ux * vy - uy * vx) + ux * (vx * wy - vy * wx)"
    by (simp add: algebra_simps)
  moreover have "0 \<le> wx" "0 \<le> ux" using u w by auto
  ultimately have "0 \<le> vx * (ux * wy - uy * wx)"
    using uv vw by simp
  with True show ?thesis by (simp add: zero_le_mult_iff)
next
  case False
  with v have vx: "vx = 0" and vy: "0 < vy" by auto
  from vw vx have "vy * wx \<le> 0" by simp
  with vy have "wx \<le> 0" by (simp add: mult_le_0_iff)
  with w have wx: "wx = 0" and wy: "0 < wy" by auto
  have "0 \<le> ux" using u by auto
  with wx wy show ?thesis by simp
qed

text \<open>The same with the three vectors pointing the other way.\<close>

lemma wedge_trans_neg:
  fixes ux :: "'a::linordered_idom"
  assumes u: "ux < 0 \<or> (ux = 0 \<and> uy < 0)"
    and v: "vx < 0 \<or> (vx = 0 \<and> vy < 0)"
    and w: "wx < 0 \<or> (wx = 0 \<and> wy < 0)"
    and uv: "0 \<le> ux * vy - uy * vx"
    and vw: "0 \<le> vx * wy - vy * wx"
  shows "0 \<le> ux * wy - uy * wx"
  using wedge_trans [of "- ux" "- uy" "- vx" "- vy" "- wx" "- wy"] assms by simp

lemma less_point_iff:
  fixes a b :: "('a::linordered_idom) point"
  shows "a < b \<longleftrightarrow> 0 < fst b - fst a \<or> (fst b - fst a = 0 \<and> 0 < snd b - snd a)"
  by (auto simp: less_prod_def)

lemma before_iff:
  fixes a b :: "('a::linordered_idom) point"
  shows "before True a b \<longleftrightarrow> 0 < fst b - fst a \<or> (fst b - fst a = 0 \<and> 0 < snd b - snd a)"
    and "before False a b \<longleftrightarrow> fst b - fst a < 0 \<or> (fst b - fst a = 0 \<and> snd b - snd a < 0)"
  by (auto simp: before_def less_prod_def)

text \<open>
  Among vectors that point forward in the scan, not turning right is transitive.
\<close>

lemma before_trans_wedge:
  fixes a :: "('a::linordered_idom) point"
  assumes "before up a a'" "before up b b'" "before up c c'"
    and "0 \<le> (fst a' - fst a) * (snd b' - snd b) - (snd a' - snd a) * (fst b' - fst b)"
    and "0 \<le> (fst b' - fst b) * (snd c' - snd c) - (snd b' - snd b) * (fst c' - fst c)"
  shows "0 \<le> (fst a' - fst a) * (snd c' - snd c) - (snd a' - snd a) * (fst c' - fst c)"
proof (cases up)
  case True
  with assms(1-3) show ?thesis
    by (intro wedge_trans [OF _ _ _ assms(4,5)]) (simp_all add: before_iff)
next
  case False
  with assms(1-3) show ?thesis
    by (intro wedge_trans_neg [OF _ _ _ assms(4,5)]) (simp_all add: before_iff)
qed

lemma turn_pop:
  fixes a :: "('a::linordered_idom) point"
  assumes "before up a b" "before up a q" "before up a p"
    and "cross a b q \<le> 0" and "0 \<le> cross a b p"
  shows "0 \<le> cross a q p"
proof -
  have 1: "0 \<le> (fst q - fst a) * (snd b - snd a) - (snd q - snd a) * (fst b - fst a)"
    using assms(4) by (simp add: cross_def algebra_simps)
  have 2: "0 \<le> (fst b - fst a) * (snd p - snd a) - (snd b - snd a) * (fst p - fst a)"
    using assms(5) by (simp add: cross_def)
  from before_trans_wedge [OF assms(2) assms(1) assms(3) 1 2]
  show ?thesis by (simp add: cross_def)
qed

lemma turn_new_edge:
  fixes a :: "('a::linordered_idom) point"
  assumes "before up p t" "before up a t" "before up t q"
    and "0 \<le> cross a t p" and "0 \<le> cross a t q"
  shows "0 \<le> cross t q p"
proof -
  have 1: "0 \<le> (fst t - fst p) * (snd t - snd a) - (snd t - snd p) * (fst t - fst a)"
    using assms(4) by (simp add: cross_def algebra_simps)
  have 2: "0 \<le> (fst t - fst a) * (snd q - snd t) - (snd t - snd a) * (fst q - fst t)"
    using assms(5) by (simp add: cross_def algebra_simps)
  from before_trans_wedge [OF assms(1) assms(2) assms(3) 1 2]
  show ?thesis by (simp add: cross_def algebra_simps)
qed

lemma turn_lower:
  fixes a :: "('a::linordered_idom) point"
  assumes "before up a b" "before up b c" "before up b q"
    and "0 \<le> cross a b c" and "0 \<le> cross b c q"
  shows "0 \<le> cross a b q"
proof -
  have 1: "0 \<le> (fst b - fst a) * (snd c - snd b) - (snd b - snd a) * (fst c - fst b)"
    using assms(4) by (simp add: cross_def algebra_simps)
  have 2: "0 \<le> (fst c - fst b) * (snd q - snd b) - (snd c - snd b) * (fst q - fst b)"
    using assms(5) by (simp add: cross_def)
  from before_trans_wedge [OF assms(1) assms(2) assms(3) 1 2]
  show ?thesis by (simp add: cross_def algebra_simps)
qed


lemma before_irrefl: "\<not> before up a a"
  by (simp add: before_def)

lemma before_asym: "before up a b \<Longrightarrow> \<not> before up b a"
  by (auto simp: before_def)

lemma before_trans: "before up a b \<Longrightarrow> before up b c \<Longrightarrow> before up a c"
  by (auto simp: before_def)

lemma before_total: "a = b \<or> before up a b \<or> before up b a"
  by (auto simp: before_def)

lemma cross_same [simp]: "cross a b b = 0" "cross a b a = 0" "cross a a b = 0"
  by (simp_all add: cross_def)

lemma stack_edges_simps [simp]:
  "stack_edges [] = []" "stack_edges [x] = []"
  "stack_edges (x # y # st) = (y, x) # stack_edges (y # st)"
  by (simp_all add: stack_edges_def)

lemma stack_edges_Cons: "st \<noteq> [] \<Longrightarrow> stack_edges (x # st) = (hd st, x) # stack_edges st"
  by (cases st) simp_all

lemma stack_edges_suffix: "suffix st' st \<Longrightarrow> set (stack_edges st') \<subseteq> set (stack_edges st)"
proof -
  have "set (stack_edges st') \<subseteq> set (stack_edges (pre @ st'))" for pre
  proof (induction pre)
    case Nil
    then show ?case by simp
  next
    case (Cons x pre)
    then show ?case by (cases "pre @ st'") auto
  qed
  then show "suffix st' st \<Longrightarrow> set (stack_edges st') \<subseteq> set (stack_edges st)"
    by (auto simp: suffix_def)
qed

lemma pop_stack_suffix: "suffix (pop_stack st q) st"
  by (induction st q rule: pop_stack.induct) (auto intro: suffix_ConsI)

lemma pop_stack_nonempty: "st \<noteq> [] \<Longrightarrow> pop_stack st q \<noteq> []"
  by (induction st q rule: pop_stack.induct) auto

lemma pop_stack_last: "st \<noteq> [] \<Longrightarrow> last (pop_stack st q) = last st"
  by (induction st q rule: pop_stack.induct) auto

lemma pop_stack_top: "pop_stack st q = b # a # rest \<Longrightarrow> 0 < cross a b q"
  by (induction st q rule: pop_stack.induct) (auto split: if_splits)

text \<open>
  The points that the scan has passed and that lie behind the new top of the stack are
  on the left of the line from the new top to the new point.
\<close>

lemma pop_stack_popped:
  assumes "sorted_wrt (\<lambda>x y. before up y x) st" and "supports st P" and "set st \<subseteq> P"
    and "\<forall>p \<in> P. before up p q"
    and "\<forall>p \<in> P. before up (hd st) p \<longrightarrow> 0 \<le> cross (hd st) q p"
  shows "\<forall>p \<in> P. before up (hd (pop_stack st q)) p \<longrightarrow> 0 \<le> cross (hd (pop_stack st q)) q p"
  using assms
proof (induction st q rule: pop_stack.induct)
  case (1 b a st p)
  show ?case
  proof (cases "cross a b p \<le> 0")
    case False
    with 1 show ?thesis by simp
  next
    case True
    have ab: "before up a b" using "1.prems"(1) by simp
    have aq: "before up a p" using "1.prems"(3,4) by simp
    have "\<forall>x \<in> P. before up a x \<longrightarrow> 0 \<le> cross a p x"
    proof (intro ballI impI)
      fix x assume x: "x \<in> P" "before up a x"
      have "0 \<le> cross a b x" using "1.prems"(2) x(1) by (simp add: supports_def)
      from turn_pop [OF ab aq x(2) True this] show "0 \<le> cross a p x" .
    qed
    moreover have "supports (a # st) P"
      using "1.prems"(2) by (simp add: supports_def)
    ultimately have "\<forall>x \<in> P. before up (hd (pop_stack (a # st) p)) x
        \<longrightarrow> 0 \<le> cross (hd (pop_stack (a # st) p)) p x"
      using "1.IH" [OF True] "1.prems"(1,3,4) by simp
    with True show ?thesis by simp
  qed
qed simp_all

text \<open>
  When the new point is on the left of the top edge of a stack, it is on the left of all
  its edges.
\<close>

lemma edges_see_new:
  assumes "sorted_wrt (\<lambda>x y. before up y x) st" and "supports st P" and "set st \<subseteq> P"
    and "\<forall>p \<in> P. before up p q"
    and "\<And>b a rest. st = b # a # rest \<Longrightarrow> 0 \<le> cross a b q"
  shows "\<forall>e \<in> set (stack_edges st). 0 \<le> cross (fst e) (snd e) q"
  using assms
proof (induction st)
  case Nil
  then show ?case by simp
next
  case (Cons c st)
  show ?case
  proof (cases st)
    case Nil
    then show ?thesis by simp
  next
    case st: (Cons b st1)
    have top: "0 \<le> cross b c q" using Cons.prems(5) st by simp
    have "\<forall>e \<in> set (stack_edges st). 0 \<le> cross (fst e) (snd e) q"
    proof (rule Cons.IH)
      show "sorted_wrt (\<lambda>x y. before up y x) st" using Cons.prems(1) by simp
      show "supports st P" using Cons.prems(2) st by (simp add: supports_def)
      show "set st \<subseteq> P" using Cons.prems(3) by simp
      show "\<forall>p \<in> P. before up p q" by fact
    next
      fix b' a rest assume "st = b' # a # rest"
      with st have eq: "st = b # a # rest" by simp
      have "before up a b" "before up b c" using Cons.prems(1) eq by simp_all
      moreover have "before up b q" using Cons.prems(3,4) st by simp
      moreover have "0 \<le> cross a b c"
        using Cons.prems(2,3) eq by (simp add: supports_def)
      ultimately have "0 \<le> cross a b q" using top by (rule turn_lower)
      then show "0 \<le> cross a b' q" using eq \<open>st = b' # a # rest\<close> by simp
    qed
    with top st show ?thesis by simp
  qed
qed


lemma stack_ok_push:
  assumes ok: "stack_ok up P st" and q: "\<forall>p \<in> P. before up p q"
  shows "stack_ok up (insert q P) (push st q)"
proof -
  let ?st = "pop_stack st q"
  from ok have ne: "st \<noteq> []" and sub: "set st \<subseteq> P"
    and srt: "sorted_wrt (\<lambda>x y. before up y x) st"
    and top: "\<forall>p \<in> P. p = hd st \<or> before up p (hd st)"
    and bot: "\<forall>p \<in> P. p = last st \<or> before up (last st) p"
    and sup: "supports st P"
    by (simp_all add: stack_ok_def)
  have suf: "suffix ?st st" by (rule pop_stack_suffix)
  have ne': "?st \<noteq> []" using ne by (rule pop_stack_nonempty)
  have sub': "set ?st \<subseteq> P" using suf sub set_mono_suffix by blast
  have srt': "sorted_wrt (\<lambda>x y. before up y x) ?st"
  proof -
    from suf obtain zs where "st = zs @ ?st" by (auto simp: suffix_def)
    with srt have "sorted_wrt (\<lambda>x y. before up y x) (zs @ ?st)" by simp
    then show ?thesis by (simp add: sorted_wrt_append)
  qed
  have last': "last ?st = last st" using ne by (rule pop_stack_last)
  have sup': "supports ?st P"
    using sup stack_edges_suffix [OF suf] by (auto simp: supports_def)
  have hd': "hd ?st \<in> P" using ne' sub' by (cases ?st) auto
  have popped: "\<forall>p \<in> P. before up (hd ?st) p \<longrightarrow> 0 \<le> cross (hd ?st) q p"
  proof (rule pop_stack_popped [OF srt sup sub q])
    show "\<forall>p \<in> P. before up (hd st) p \<longrightarrow> 0 \<le> cross (hd st) q p"
    proof (intro ballI impI)
      fix p assume "p \<in> P" "before up (hd st) p"
      with top have False
        using before_asym [of up p "hd st"] before_irrefl [of up p] by auto
      then show "0 \<le> cross (hd st) q p" ..
    qed
  qed
  have new_old: "\<forall>e \<in> set (stack_edges ?st). 0 \<le> cross (fst e) (snd e) q"
  proof (rule edges_see_new [OF srt' sup' sub' q])
    fix b a rest assume "?st = b # a # rest"
    from pop_stack_top [OF this] show "0 \<le> cross a b q" by simp
  qed
  have new_edge: "0 \<le> cross (hd ?st) q p" if p: "p \<in> P" for p
  proof -
    consider "p = hd ?st" | "before up (hd ?st) p" | "before up p (hd ?st)"
      using before_total by blast
    then show ?thesis
    proof cases
      case 1
      then show ?thesis by simp
    next
      case 2
      with popped p show ?thesis by blast
    next
      case 3
      obtain t rest where st: "?st = t # rest" using ne' by (cases ?st) auto
      have "rest \<noteq> []"
      proof
        assume "rest = []"
        with st last' have "last st = t" by simp
        with bot p have "p = t \<or> before up t p" by blast
        with 3 st show False using before_asym [of up p t] before_irrefl [of up t] by auto
      qed
      then obtain a rest' where rest: "rest = a # rest'" by (cases rest) auto
      have "0 < cross a t q" using pop_stack_top st rest by blast
      moreover have "0 \<le> cross a t p" using sup' p st rest by (simp add: supports_def)
      moreover have "before up a t" using srt' st rest by simp
      moreover have "before up t q" using hd' q st by simp
      moreover have "before up p t" using 3 st by simp
      ultimately have "0 \<le> cross t q p"
        using turn_new_edge [of up p t a q] by simp
      with st show ?thesis by simp
    qed
  qed
  have "supports (q # ?st) (insert q P)"
    using ne' sup' new_old new_edge
    by (auto simp: supports_def stack_edges_Cons)
  moreover have "sorted_wrt (\<lambda>x y. before up y x) (q # ?st)"
    using srt' sub' q by auto
  moreover have "\<forall>p \<in> insert q P. p = last (q # ?st) \<or> before up (last (q # ?st)) p"
  proof -
    have "last st \<in> P" using ne sub by auto
    with q have "before up (last st) q" by blast
    with bot ne' last' show ?thesis by auto
  qed
  ultimately show ?thesis
    using sub' q by (auto simp: stack_ok_def push_def)
qed

lemma stack_ok_scan:
  assumes "stack_ok up P st" and "sorted_wrt (before up) pts"
    and "\<forall>p \<in> P. \<forall>q \<in> set pts. before up p q"
  shows "stack_ok up (P \<union> set pts) (foldl push st pts)"
  using assms
proof (induction pts arbitrary: P st)
  case Nil
  then show ?case by simp
next
  case (Cons q pts)
  have "stack_ok up (insert q P) (push st q)"
    using Cons.prems(1,3) by (intro stack_ok_push) auto
  moreover have "sorted_wrt (before up) pts" using Cons.prems(2) by simp
  moreover have "\<forall>p \<in> insert q P. \<forall>x \<in> set pts. before up p x"
    using Cons.prems(2,3) by auto
  ultimately have "stack_ok up (insert q P \<union> set pts) (foldl push (push st q) pts)"
    by (rule Cons.IH)
  then show ?case by simp
qed

text \<open>The stack with its top in front is the Python list reversed.\<close>

lemma pop_while_rev: "pop_while (rev st) p = rev (pop_stack st p)"
proof (induction st p rule: pop_stack.induct)
  case (1 b a st p)
  have "pop_while (rev (b # a # st)) p
        = (if cross a b p \<le> 0 then pop_while (rev (a # st)) p else rev (b # a # st))"
    by (subst pop_while.simps) (simp add: nth_append butlast_append)
  with 1 show ?case by simp
qed (subst pop_while.simps, simp)+

lemma chain_step_rev: "chain_step (rev st) p = rev (push st p)"
  by (simp add: chain_step_def push_def pop_while_rev)

lemma foldl_chain_step_rev: "foldl chain_step (rev st) pts = rev (foldl push st pts)"
proof (induction pts arbitrary: st)
  case Nil
  then show ?case by simp
next
  case (Cons p pts)
  from Cons [of "push st p"] show ?case by (simp add: chain_step_rev)
qed

lemma chain_rev: "chain pts = rev (foldl push [] pts)"
  using foldl_chain_step_rev [of "[]" pts] by (simp add: chain_def)

text \<open>What a scan over a strictly ordered, non-empty list of points yields.\<close>

lemma chain_ok:
  assumes "sorted_wrt (before up) pts" and "pts \<noteq> []"
  shows "stack_ok up (set pts) (rev (chain pts))"
proof -
  obtain p rest where pts: "pts = p # rest" using assms(2) by (cases pts) auto
  have "stack_ok up {p} [p]" by (simp add: stack_ok_def supports_def)
  moreover have "sorted_wrt (before up) rest" using assms(1) pts by simp
  moreover have "\<forall>x \<in> {p}. \<forall>q \<in> set rest. before up x q" using assms(1) pts by simp
  ultimately have "stack_ok up ({p} \<union> set rest) (foldl push [p] rest)"
    by (rule stack_ok_scan)
  moreover have "foldl push [] pts = foldl push [p] rest" by (simp add: pts push_def)
  ultimately show ?thesis by (simp add: chain_rev pts)
qed


lemma stack_edges_snoc:
  "stack_edges (st @ [x]) = stack_edges st @ (if st = [] then [] else [(x, last st)])"
proof (induction st)
  case Nil
  then show ?case by simp
next
  case (Cons y st)
  then show ?case by (cases st) simp_all
qed

lemma stack_edges_rev: "set (stack_edges (rev xs)) = set (zip xs (tl xs))"
proof (induction xs)
  case Nil
  then show ?case by simp
next
  case (Cons x xs)
  show ?case
  proof (cases xs)
    case Nil
    then show ?thesis by simp
  next
    case (Cons a list)
    have "stack_edges (rev (x # xs)) = stack_edges (rev xs @ [x])" by simp
    also have "\<dots> = stack_edges (rev xs) @ [(x, a)]"
      unfolding stack_edges_snoc using Cons by (simp add: last_rev)
    finally have "set (stack_edges (rev (x # xs))) = insert (x, a) (set (zip xs (tl xs)))"
      using Cons.IH by simp
    moreover have "zip (x # xs) (tl (x # xs)) = (x, a) # zip xs (tl xs)"
      using Cons by simp
    ultimately show ?thesis by simp
  qed
qed



text \<open>
  What the two scans of \<^verbatim>\<open>convex_hull\<close> yield on a strictly ascending list of at least two
  points.
\<close>

lemma chains_ok:
  fixes pts :: "('a::linordered_idom) point list"
  assumes srt: "sorted_wrt (<) pts" and len: "2 \<le> length pts"
  defines "lo \<equiv> chain pts" and "hi \<equiv> chain (rev pts)"
  shows "set lo \<subseteq> set pts" and "set hi \<subseteq> set pts"
    and "2 \<le> length lo" and "2 \<le> length hi"
    and "hd hi = last lo" and "last hi = hd lo"
    and "\<forall>p \<in> set pts. hd lo \<le> p \<and> p \<le> hd hi"
    and "\<forall>e \<in> set (zip lo (tl lo) @ zip hi (tl hi)).
           \<forall>p \<in> set pts. 0 \<le> cross (fst e) (snd e) p"
proof -
  have ne: "pts \<noteq> []" using len by auto
  have up: "sorted_wrt (before True) pts"
    using srt by (simp add: before_def [abs_def])
  have down: "sorted_wrt (before False) (rev pts)"
    using srt by (simp add: before_def [abs_def] sorted_wrt_rev)
  from chain_ok [OF up ne] have L: "stack_ok True (set pts) (rev lo)"
    by (simp add: lo_def)
  from chain_ok [OF down] ne have U: "stack_ok False (set pts) (rev hi)"
    by (simp add: hi_def)
  from L have lne: "lo \<noteq> []" and lsub: "set lo \<subseteq> set pts"
    and lmax: "\<forall>p \<in> set pts. p = last lo \<or> p < last lo"
    and lmin: "\<forall>p \<in> set pts. p = hd lo \<or> hd lo < p"
    and lsup: "supports (rev lo) (set pts)"
    by (simp_all add: stack_ok_def hd_rev last_rev before_def)
  from U have une: "hi \<noteq> []" and usub: "set hi \<subseteq> set pts"
    and umin: "\<forall>p \<in> set pts. p = last hi \<or> last hi < p"
    and umax: "\<forall>p \<in> set pts. p = hd hi \<or> p < hd hi"
    and usup: "supports (rev hi) (set pts)"
    by (simp_all add: stack_ok_def hd_rev last_rev before_def)
  show "set lo \<subseteq> set pts" "set hi \<subseteq> set pts" by fact+
  have hl: "hd lo \<in> set pts" "last lo \<in> set pts"
    using lne lsub by auto
  have hu: "hd hi \<in> set pts" "last hi \<in> set pts"
    using une usub by auto
  show eq1: "hd hi = last lo"
  proof -
    from lmax hu(1) have "hd hi = last lo \<or> hd hi < last lo" by blast
    moreover from umax hl(2) have "last lo = hd hi \<or> last lo < hd hi" by blast
    ultimately show ?thesis by auto
  qed
  show eq2: "last hi = hd lo"
  proof -
    from lmin hu(2) have "last hi = hd lo \<or> hd lo < last hi" by blast
    moreover from umin hl(1) have "hd lo = last hi \<or> last hi < hd lo" by blast
    ultimately show ?thesis by auto
  qed
  have "distinct pts" using srt by (simp add: strict_sorted_iff)
  moreover obtain x y rest where "pts = x # y # rest"
    using len by (cases pts; cases "tl pts") auto
  moreover have "last (y # rest) \<in> set (y # rest)" for y :: "'a point" and rest
    by (rule last_in_set) simp
  ultimately have "hd pts \<noteq> last pts"
    by (metis distinct.simps(2) last_ConsR list.distinct(1) list.sel(1))
  have diff: "hd lo \<noteq> last lo"
  proof
    assume e: "hd lo = last lo"
    have "p = hd lo" if "p \<in> set pts" for p
      using that lmax lmin e by (metis less_asym)
    then have "hd pts = last pts" using ne by (metis hd_in_set last_in_set)
    with \<open>hd pts \<noteq> last pts\<close> show False by simp
  qed
  then show "2 \<le> length lo"
    using lne by (cases lo; cases "tl lo") auto
  from diff eq1 eq2 have "hd hi \<noteq> last hi" by simp
  then show "2 \<le> length hi"
    using une by (cases hi; cases "tl hi") auto
  show "\<forall>p \<in> set pts. hd lo \<le> p \<and> p \<le> hd hi"
    using lmin umax by (auto simp: less_le)
  show "\<forall>e \<in> set (zip lo (tl lo) @ zip hi (tl hi)).
           \<forall>p \<in> set pts. 0 \<le> cross (fst e) (snd e) p"
    using lsup usup by (auto simp: supports_def stack_edges_rev [symmetric])
qed



section \<open>Facts that keep the model inside the program's behaviour\<close>

text \<open>
  Every row that survives the filter has a latitude and a longitude, so \<open>point_of\<close> and
  \<open>lon_lat\<close> read values that are there.
\<close>

lemma record_filter_position:
  "r \<in> set (record_filter view_mode df) \<Longrightarrow> latitude r \<noteq> None \<and> longitude r \<noteq> None"
proof -
  assume "r \<in> set (record_filter view_mode df)"
  then have "r \<in> set (pla_filter view_mode (filter basic_ok df))"
    by (simp add: record_filter_alt)
  with pla_filter_subset have "r \<in> set (filter basic_ok df)" by blast
  then show ?thesis by (simp add: basic_ok_def has_position_def)
qed

text \<open>
  The hull of a non-empty list of points is not empty, so \<^verbatim>\<open>hull[0]\<close> in the aggregator
  is in range.
\<close>

lemma convex_hull_nonempty: "points \<noteq> [] \<Longrightarrow> convex_hull points \<noteq> []"
proof (cases "card (set points) < 3")
  case True
  assume "points \<noteq> []"
  then have "set (sort (remdups points)) \<noteq> {}" by simp
  then have "sort (remdups points) \<noteq> []" by (metis set_empty)
  then show ?thesis
    using True by (simp add: convex_hull_def Let_def length_remdups_card_conv)
next
  case False
  let ?pts = "sort (remdups points)"
  have len: "length ?pts = card (set points)" by (simp add: length_remdups_card_conv)
  have "sorted_wrt (<) ?pts" by (simp add: strict_sorted_iff)
  moreover have "2 \<le> length ?pts" using len False by simp
  ultimately have "2 \<le> length (chain ?pts)" by (rule chains_ok(3))
  then have "butlast (chain ?pts) \<noteq> []"
    by (auto simp: length_0_conv [symmetric] simp del: length_0_conv)
  then show ?thesis using len False by (simp add: convex_hull_def Let_def)
qed

lemma group_hull_ring:
  "f \<in> set (group_hull g) \<Longrightarrow>
     3 \<le> length (snd g) \<and> label f = fst g
     \<and> ring f = convex_hull (map lon_lat (snd g)) @ [convex_hull (map lon_lat (snd g)) ! 0]"
  by (auto simp: group_hull_def Let_def split: if_splits)

section \<open>The claims about the geometry kernel on degenerate input\<close>

text \<open>
  Claim C9, as stated: for fewer than three distinct points \<^verbatim>\<open>convex_hull\<close> returns the
  distinct input points in their original relative order. It does not: the two distinct
  points \<open>(1,0), (0,0)\<close> come back in the other order.
\<close>

theorem convex_hull_keeps_order_counterexample:
  "card (set [(1::int, 0::int), (0, 0)]) < 3 \<and> distinct [(1::int, 0::int), (0, 0)]
   \<and> convex_hull [(1::int, 0), (0, 0)] \<noteq> [(1, 0), (0, 0)]"
  by (simp add: convex_hull_def)

text \<open>
  Claim C9, amended: for fewer than three distinct points \<^verbatim>\<open>convex_hull\<close> returns the distinct
  input points in ascending lexicographic order.
\<close>

theorem convex_hull_degenerate:
  "card (set points) < 3 \<Longrightarrow> convex_hull points = sorted_list_of_set (set points)"
  by (simp add: convex_hull_def Let_def length_remdups_card_conv sorted_list_of_set_sort_remdups)

theorem convex_hull_degenerate_witness:
  "card (set [(1::int, 0::int), (0, 0), (1, 0)]) < 3
   \<and> convex_hull [(1::int, 0), (0, 0), (1, 0)] = [(0, 0), (1, 0)]"
proof -
  have h: "card (set [(1::int, 0::int), (0, 0), (1, 0)]) < 3" by code_simp
  have s: "sorted_list_of_set (set [(1::int, 0::int), (0, 0), (1, 0)]) = [(0, 0), (1, 0)]"
    by code_simp
  show ?thesis using h convex_hull_degenerate [OF h] s by simp
qed

section \<open>The claims about the classifier and the colour table\<close>

text \<open>
  Claim C1, as stated: in the Utility view a row is MultiCompany exactly when it has more
  than one distinct canonical company name, and a row that names the same canonical company
  twice is SingleCompany. The row \<open>ex_same_twice\<close> names \<^verbatim>\<open>AEP\<close> twice, so it has one
  distinct canonical name, and it is classified MultiCompany.
\<close>

theorem classify_distinct_counterexample:
  "card (set (companies Utility ex_same_twice)) = 1
   \<and> classify Utility ex_same_twice = MultiCompany"
  by code_simp

text \<open>
  Claim C1, amended: in the Utility view the category follows the number of company cells
  that are present and not blank, repetitions counted: MultiCompany exactly when there is
  more than one, NoCompany exactly when there is none, and SingleCompany of the canonical
  name of the cell exactly when there is one.
\<close>

theorem classify_by_cell_count:
  "(classify Utility r = MultiCompany \<longleftrightarrow> 1 < length (filter present (company_cells r)))
   \<and> (classify Utility r = NoCompany \<longleftrightarrow> length (filter present (company_cells r)) = 0)
   \<and> (classify Utility r = SingleCompany name \<longleftrightarrow>
        (\<exists>c. filter present (company_cells r) = [c] \<and> name = canon (str_cell c)))"
  unfolding classify_utility_cases
  by (auto split: list.splits)

theorem classify_by_cell_count_witness:
  "length (filter present (company_cells ex_same_twice)) = 2
   \<and> classify Utility ex_same_twice = MultiCompany
   \<and> classify Utility ex_nan_name = SingleCompany ''NAN''"
proof -
  have a: "length (filter present (company_cells ex_same_twice)) = 2" by code_simp
  have b: "filter present (company_cells ex_nan_name) = [Some ''NAN'']" by code_simp
  have c: "canon (str_cell (Some ''NAN'')) = ''NAN''" by code_simp
  from a classify_by_cell_count [of ex_same_twice "''x''"]
  have "classify Utility ex_same_twice = MultiCompany" by simp
  moreover from b c classify_by_cell_count [of ex_nan_name "''NAN''"]
  have "classify Utility ex_nan_name = SingleCompany ''NAN''" by simp
  ultimately show ?thesis using a by simp
qed

text \<open>
  Claim C3, as stated: the unknown company names receive the palette colours in first-seen
  order (row order, then column order). In \<open>ex_zeta_alpha\<close> the name \<^verbatim>\<open>Zeta\<close> is seen
  first and \<^verbatim>\<open>Alpha\<close> second, and \<^verbatim>\<open>Alpha\<close> gets the first palette colour.
\<close>

theorem comp_color_first_seen_counterexample:
  "comps ex_zeta_alpha = [''Zeta'', ''Alpha'']
   \<and> map_of (comp_color ex_zeta_alpha) ''Zeta'' = Some (PALETTE ! 1)
   \<and> map_of (comp_color ex_zeta_alpha) ''Alpha'' = Some (PALETTE ! 0)"
  by code_simp

text \<open>
  Claim C3, amended: the four known companies keep their fixed colours, and the unknown
  canonical names receive the palette colours cyclically in ascending order of the names
  (the order of \<^verbatim>\<open>sorted\<close>), the \<open>i\<close>-th of them the colour \<open>i mod 6\<close> of the palette.
\<close>

theorem comp_color_sorted_order:
  "(\<forall>(k, c) \<in> set known_colors. map_of (comp_color df) k = Some c)
   \<and> (\<forall>i < length (unknown_names df).
         map_of (comp_color df) (unknown_names df ! i) = Some (PALETTE ! (i mod length PALETTE)))"
proof (intro conjI ballI allI impI)
  fix kc assume "kc \<in> set known_colors"
  moreover have "distinct (map fst known_colors)" by (simp add: known_colors_def)
  ultimately have "map_of known_colors (fst kc) = Some (snd kc)" by simp
  then have "map_of (comp_color df) (fst kc) = Some (snd kc)"
    unfolding comp_color_def Let_def by (rule assign_colors_keeps)
  then show "case kc of (k, c) \<Rightarrow> map_of (comp_color df) k = Some c"
    by (simp add: case_prod_beta)
next
  fix i assume i: "i < length (unknown_names df)"
  let ?names = "sort (remdups (comps df))"
  have un: "unknown_names df = filter (\<lambda>n. map_of known_colors n = None) ?names"
    by (simp add: unknown_names_def sorted_list_of_set_sort_remdups map_of_eq_None_iff)
  have "distinct ?names" by simp
  from assign_colors_fresh [OF this, of i known_colors 0] i un
  show "map_of (comp_color df) (unknown_names df ! i) = Some (PALETTE ! (i mod length PALETTE))"
    by (simp add: comp_color_def)
qed

theorem comp_color_sorted_order_witness:
  "unknown_names ex_zeta_alpha = [''Alpha'', ''Zeta'']
   \<and> map_of (comp_color ex_zeta_alpha) ''AEP'' = Some ''orange''
   \<and> map_of (comp_color ex_zeta_alpha) ''Zeta'' = Some ''darkblue''"
proof -
  have u: "unknown_names ex_zeta_alpha = [''Alpha'', ''Zeta'']" by code_simp
  have k: "(''AEP'', ''orange'') \<in> set known_colors" by (simp add: known_colors_def)
  have p: "PALETTE ! (1 mod length PALETTE) = ''darkblue''" by (simp add: PALETTE_def)
  from comp_color_sorted_order [of ex_zeta_alpha] k
  have "map_of (comp_color ex_zeta_alpha) ''AEP'' = Some ''orange''" by fastforce
  moreover from comp_color_sorted_order [of ex_zeta_alpha] u p
  have "map_of (comp_color ex_zeta_alpha) ''Zeta'' = Some ''darkblue''"
    by (metis One_nat_def length_Cons lessI list.size(3) nth_Cons_0 nth_Cons_Suc)
  ultimately show ?thesis using u by simp
qed

text \<open>
  Claim C10, as stated: the company of a SingleCompany row is always a key of the colour
  table, so the default colour of the lookup is never used. The row \<open>ex_nan_name\<close> has the
  one company cell \<^verbatim>\<open>NAN\<close>: the table skips that text, the classifier does not, and the
  marker gets the default colour.
\<close>

theorem single_company_key_counterexample:
  "classify Utility ex_nan_name = SingleCompany ''NAN''
   \<and> map_of (comp_color [ex_nan_name]) ''NAN'' = None
   \<and> color (marker_of Utility (comp_color [ex_nan_name]) ex_nan_name) = PALETTE ! 0"
  by code_simp

text \<open>
  Claim C10, amended: for every row of the data frame that is classified SingleCompany and
  whose canonical company name is not \<^verbatim>\<open>nan\<close> in any letter case, the name is a key of
  the colour table built from the same data frame.
\<close>

theorem single_company_key:
  "r \<in> set df \<Longrightarrow> classify Utility r = SingleCompany name \<Longrightarrow> lower name \<noteq> ''nan''
   \<Longrightarrow> map_of (comp_color df) name \<noteq> None"
proof -
  assume r: "r \<in> set df" and s: "classify Utility r = SingleCompany name"
    and n: "lower name \<noteq> ''nan''"
  from s obtain c where c: "filter present (company_cells r) = [c]" "name = canon (str_cell c)"
    unfolding classify_utility_cases by (auto split: list.splits)
  from single_in_row_comps [OF c(1)] n c(2) have "name \<in> set (row_comps r)" by simp
  with row_comps_subset [OF r] have "name \<in> set (comps df)" by blast
  then show ?thesis by (rule comp_color_keys)
qed

theorem single_company_key_witness:
  "ex_zeta_alpha ! 0 \<in> set ex_zeta_alpha
   \<and> classify Utility (ex_zeta_alpha ! 0) = SingleCompany ''Zeta''
   \<and> lower ''Zeta'' \<noteq> ''nan''
   \<and> map_of (comp_color ex_zeta_alpha) ''Zeta'' \<noteq> None"
proof -
  have a: "ex_zeta_alpha ! 0 \<in> set ex_zeta_alpha" by (simp add: ex_zeta_alpha_def)
  have b: "classify Utility (ex_zeta_alpha ! 0) = SingleCompany ''Zeta''" by code_simp
  have c: "lower ''Zeta'' \<noteq> ''nan''" by code_simp
  from single_company_key [OF a b c] a b c show ?thesis by simp
qed

section \<open>The claims about the record filter\<close>

text \<open>
  Claim C6: filtering is idempotent. In either view mode the record filter, applied to its
  own output, returns that output.
\<close>

theorem record_filter_idempotent:
  "record_filter view_mode (record_filter view_mode df) = record_filter view_mode df"
proof -
  let ?keep = "\<lambda>r. view_mode = Utility \<longrightarrow> \<not> excluded_company r"
  let ?b = "filter basic_ok df"
  let ?out = "filter ?keep (pla_filter view_mode ?b)"
  have sub: "set ?out \<subseteq> set (pla_filter view_mode ?b)" by auto
  have "set ?out \<subseteq> set ?b" using sub pla_filter_subset [of view_mode ?b] by blast
  then have b: "filter basic_ok ?out = ?out"
    by (simp only: filter_id_conv) auto
  have "pla_filter view_mode ?out = ?out"
    using pla_filter_subset [of view_mode ?b] sub
    by (intro pla_filter_stable [of _ ?b]) auto
  with b have "filter ?keep (pla_filter view_mode (filter basic_ok ?out)) = ?out"
    by simp
  then show ?thesis by (simp only: record_filter_alt)
qed

theorem record_filter_idempotent_witness:
  "map job_name (record_filter Utility ex_pla) = [Some ''jobA PLA'', Some ''jobB'']
   \<and> record_filter Utility (record_filter Utility ex_pla) = record_filter Utility ex_pla"
proof -
  have "map job_name (record_filter Utility ex_pla) = [Some ''jobA PLA'', Some ''jobB'']"
    by code_simp
  with record_filter_idempotent [of Utility ex_pla] show ?thesis by simp
qed

text \<open>
  Claim C4: the rule for \<^verbatim>\<open>PLA\<close> (lines 58 to 66). In the Utility view, when the data frame
  has a row named \<^verbatim>\<open>jobA PLA\<close>, the rows named \<^verbatim>\<open>jobA\<close> or \<^verbatim>\<open>jobA PLA\<close> that survive are
  exactly the rows named \<^verbatim>\<open>jobA PLA\<close>; when all rows carry one job name that does not
  contain \<^verbatim>\<open>PLA\<close> as a word, all rows survive; and in the MR view a row whose job name
  contains \<^verbatim>\<open>PLA\<close> as a word survives neither the rule nor the whole filter, whatever the
  other rows are.
\<close>

theorem pla_filter_rule:
  "((\<exists>r \<in> set df. job_name r = Some ''jobA PLA'') \<longrightarrow>
      filter (\<lambda>r. job_name r = Some ''jobA'' \<or> job_name r = Some ''jobA PLA'')
        (pla_filter Utility df)
      = filter (\<lambda>r. job_name r = Some ''jobA PLA'') df)
   \<and> ((\<forall>r \<in> set df. job_name r = Some j) \<and> \<not> contains_pla j \<longrightarrow> pla_filter Utility df = df)
   \<and> (\<forall>r \<in> set df. is_pla r \<longrightarrow>
         r \<notin> set (pla_filter MR df) \<and> r \<notin> set (record_filter MR df))"
proof (intro conjI impI ballI)
  assume "\<exists>r \<in> set df. job_name r = Some ''jobA PLA''"
  then obtain r0 where r0: "r0 \<in> set df" "job_name r0 = Some ''jobA PLA''" by blast
  with row_jobA_PLA [of r0] have "base_job r0 = Some ''jobA''" "r0 \<in> set (filter is_pla df)"
    by simp_all
  then have H: "Some ''jobA'' \<in> set (remdups (map base_job (filter is_pla df)))"
    by (metis image_eqI set_map set_remdups)
  have "filter (\<lambda>r. job_name r = Some ''jobA'' \<or> job_name r = Some ''jobA PLA'')
          (pla_rule df)
        = filter (\<lambda>r. job_name r = Some ''jobA PLA'') df"
    unfolding pla_rule_def Let_def filter_filter
  proof (rule filter_cong [OF refl])
    fix r
    show "(((base_job r \<in> set (remdups (map base_job (filter is_pla df))) \<and> is_pla r)
            \<or> base_job r \<notin> set (remdups (map base_job (filter is_pla df))))
           \<and> (job_name r = Some ''jobA'' \<or> job_name r = Some ''jobA PLA''))
          = (job_name r = Some ''jobA PLA'')"
      using H row_jobA [of r] row_jobA_PLA [of r] by auto
  qed
  then show "filter (\<lambda>r. job_name r = Some ''jobA'' \<or> job_name r = Some ''jobA PLA'')
          (pla_filter Utility df)
        = filter (\<lambda>r. job_name r = Some ''jobA PLA'') df"
    by (simp add: pla_filter_def)
next
  assume a: "(\<forall>r \<in> set df. job_name r = Some j) \<and> \<not> contains_pla j"
  then have "filter is_pla df = []"
    by (auto simp: is_pla_def filter_empty_conv)
  then show "pla_filter Utility df = df"
    by (simp add: pla_filter_def pla_rule_def)
next
  fix r assume "r \<in> set df" "is_pla r"
  then show "r \<notin> set (pla_filter MR df)" by (simp add: pla_filter_def)
next
  fix r assume "r \<in> set df" "is_pla r"
  then show "r \<notin> set (record_filter MR df)"
    by (simp add: record_filter_alt pla_filter_def)
qed

theorem pla_filter_rule_witness:
  "map job_name ex_pla = [Some ''jobA'', Some ''jobA PLA'', Some ''jobB'', Some ''jobA'']
   \<and> map job_name (pla_filter Utility ex_pla) = [Some ''jobA PLA'', Some ''jobB'']
   \<and> map job_name ex_jobB = [Some ''jobB'', Some ''jobB''] \<and> \<not> contains_pla ''jobB''
   \<and> pla_filter Utility ex_jobB = ex_jobB
   \<and> is_pla (ex_pla ! 1) \<and> ex_pla ! 1 \<notin> set (record_filter MR ex_pla)"
proof -
  have a: "map job_name ex_pla = [Some ''jobA'', Some ''jobA PLA'', Some ''jobB'', Some ''jobA'']"
    by (simp add: ex_pla_def pole_def)
  have a': "\<exists>r \<in> set ex_pla. job_name r = Some ''jobA PLA''"
    by (simp add: ex_pla_def pole_def)
  have b: "filter (\<lambda>r. job_name r = Some ''jobA PLA'') ex_pla = [ex_pla ! 1]"
    by (simp add: ex_pla_def pole_def)
  have b': "map job_name (pla_filter Utility ex_pla) = [Some ''jobA PLA'', Some ''jobB'']"
    by code_simp
  have c: "map job_name ex_jobB = [Some ''jobB'', Some ''jobB'']"
    by (simp add: ex_jobB_def pole_def)
  have c': "\<forall>r \<in> set ex_jobB. job_name r = Some ''jobB''"
    by (simp add: ex_jobB_def pole_def)
  have c'': "\<not> contains_pla ''jobB''" by code_simp
  have d: "ex_pla ! 1 \<in> set ex_pla" by (simp add: ex_pla_def)
  have e: "is_pla (ex_pla ! 1)" by code_simp
  from pla_filter_rule [of ex_pla "''jobB''"] a' b
  have "filter (\<lambda>r. job_name r = Some ''jobA'' \<or> job_name r = Some ''jobA PLA'')
          (pla_filter Utility ex_pla) = [ex_pla ! 1]"
    by simp
  from pla_filter_rule [of ex_jobB "''jobB''"] c' c''
  have f: "pla_filter Utility ex_jobB = ex_jobB" by blast
  from pla_filter_rule [of ex_pla "''jobB''"] d e
  have g: "ex_pla ! 1 \<notin> set (record_filter MR ex_pla)" by blast
  show ?thesis using a b' c c'' e f g by blast
qed

section \<open>The claims about the markup file and the column checks\<close>



text \<open>
  Claim C8, as stated: when a required column or column group is absent the run ends with
  an error whose message names exactly what is missing. With every column but \<^verbatim>\<open>scid\<close>
  in the input, the message names all five base columns, \<^verbatim>\<open>job_name\<close> among them, which
  is present.
\<close>

theorem on_generate_message_counterexample:
  "on_generate base ex_columns
     = Inl (ShowError ''Missing Columns'' ''Need: job_name, latitude, longitude, node_type, scid'')
   \<and> ''job_name'' \<in> set ex_columns \<and> set base - set ex_columns = {''scid''}"
  by code_simp

text \<open>
  Claim C8, amended: when a base column, every MR-level column, every MR-cost column or
  every company column is absent, and only then, the run ends with an error box before
  \<^verbatim>\<open>build_map\<close> is called. The box is that of the first check that fails, and its message
  is fixed: for a missing base column it lists all five base columns, for a missing
  MR-level or MR-cost group it names both groups, and for no company column it says so.
\<close>

theorem on_generate_errors:
  "(something_missing columns \<longleftrightarrow> (\<exists>d. on_generate base_iter columns = Inl d))
   \<and> (\<not> set base \<subseteq> set columns \<longrightarrow>
        on_generate base_iter columns
          = Inl (ShowError ''Missing Columns'' (''Need: '' @ join '', '' base_iter)))
   \<and> (set base \<subseteq> set columns \<and> (level_cols columns = [] \<or> cost_cols columns = []) \<longrightarrow>
        on_generate base_iter columns
          = Inl (ShowError ''Missing MR cols'' ''Need MR_level* and MR_cost* cols''))
   \<and> (set base \<subseteq> set columns \<and> level_cols columns \<noteq> [] \<and> cost_cols columns \<noteq> []
        \<and> company_cols columns = [] \<longrightarrow>
        on_generate base_iter columns
          = Inl (ShowError ''Missing Company cols'' ''No company columns found''))"
  by (auto simp: on_generate_def something_missing_def)

theorem on_generate_errors_witness:
  "something_missing ex_columns
   \<and> on_generate base ex_columns
       = Inl (ShowError ''Missing Columns'' (''Need: '' @ join '', '' base))
   \<and> on_generate base [''job_name'', ''latitude'', ''longitude'', ''node_type'', ''scid'',
        ''MR_Level'', ''company'']
       = Inl (ShowError ''Missing MR cols'' ''Need MR_level* and MR_cost* cols'')
   \<and> on_generate base [''job_name'', ''latitude'', ''longitude'', ''node_type'', ''scid'',
        ''MR_Level'', ''Est_MR_Cost'']
       = Inl (ShowError ''Missing Company cols'' ''No company columns found'')"
proof -
  let ?c2 = "[''job_name'', ''latitude'', ''longitude'', ''node_type'', ''scid'',
        ''MR_Level'', ''company'']"
  let ?c3 = "[''job_name'', ''latitude'', ''longitude'', ''node_type'', ''scid'',
        ''MR_Level'', ''Est_MR_Cost'']"
  have a: "\<not> set base \<subseteq> set ex_columns" by code_simp
  have b: "set base \<subseteq> set ?c2 \<and> (level_cols ?c2 = [] \<or> cost_cols ?c2 = [])" by code_simp
  have c: "set base \<subseteq> set ?c3 \<and> level_cols ?c3 \<noteq> [] \<and> cost_cols ?c3 \<noteq> []
           \<and> company_cols ?c3 = []" by code_simp
  from on_generate_errors [of ex_columns base] a
  have 1: "something_missing ex_columns
           \<and> on_generate base ex_columns
               = Inl (ShowError ''Missing Columns'' (''Need: '' @ join '', '' base))"
    by blast
  from on_generate_errors [of ?c2 base] b
  have 2: "on_generate base ?c2
           = Inl (ShowError ''Missing MR cols'' ''Need MR_level* and MR_cost* cols'')"
    by blast
  from on_generate_errors [of ?c3 base] c
  have 3: "on_generate base ?c3
           = Inl (ShowError ''Missing Company cols'' ''No company columns found'')"
    by blast
  from 1 2 3 show ?thesis by blast
qed

section \<open>The claim about the job aggregator\<close>

text \<open>
  Claim C2: a job group yields a hull feature exactly when it has at least three distinct
  coordinate pairs. The code tests the number of rows of the group, not of distinct
  points: the three rows of \<open>ex_one_place\<close> pass the filter, lie at one place, and yield
  a feature whose ring is that point twice.
\<close>

theorem aggregate_one_place:
  "record_filter MR ex_one_place = ex_one_place
   \<and> card (set (map lon_lat ex_one_place)) = 1
   \<and> aggregate ex_one_place = [\<lparr>label = ''J1'', ring = [(- 97, 26), (- 97, 26)]\<rparr>]"
  by code_simp

section \<open>The claim about the convex hull\<close>



section \<open>Further properties of the pipeline\<close>

text \<open>
  The record filter only removes rows: its result is a subsequence of the input, so the
  surviving rows keep their relative order.
\<close>

theorem record_filter_keeps_order: "subseq (record_filter view_mode df) df"
proof -
  have "subseq (pla_filter view_mode xs) xs" for xs :: "'a row list"
    by (simp add: pla_filter_def pla_rule_def)
  then have "subseq (pla_filter view_mode (filter basic_ok df)) df"
    by (rule subseq_order.trans) simp
  then show ?thesis
    unfolding record_filter_alt by (rule subseq_order.trans [rotated]) simp
qed

theorem record_filter_keeps_order_witness:
  "map job_name (record_filter Utility ex_pla) = [Some ''jobA PLA'', Some ''jobB'']
   \<and> subseq (record_filter Utility ex_pla) ex_pla"
proof -
  have "map job_name (record_filter Utility ex_pla) = [Some ''jobA PLA'', Some ''jobB'']"
    by code_simp
  with record_filter_keeps_order [of Utility ex_pla] show ?thesis by simp
qed

text \<open>
  Every ring that the aggregator emits is closed: it is the hull of the points of a group
  of at least three rows, followed by the first point of that hull.
\<close>

theorem aggregate_ring_closed:
  "f \<in> set (aggregate df) \<Longrightarrow>
     2 \<le> length (ring f) \<and> hd (ring f) = last (ring f)
     \<and> (\<exists>rows. 3 \<le> length rows \<and> set rows \<subseteq> set df
            \<and> butlast (ring f) = convex_hull (map lon_lat rows))"
proof -
  assume "f \<in> set (aggregate df)"
  then obtain g where g: "g \<in> set (job_groups df)" "f \<in> set (group_hull g)"
    by (auto simp: aggregate_def)
  let ?h = "convex_hull (map lon_lat (snd g))"
  from group_hull_ring [OF g(2)]
  have len: "3 \<le> length (snd g)" and ring: "ring f = ?h @ [?h ! 0]" by simp_all
  from len have "map lon_lat (snd g) \<noteq> []" by auto
  then have ne: "?h \<noteq> []" by (rule convex_hull_nonempty)
  then have "hd (ring f) = last (ring f)" using ring by (simp add: hd_conv_nth nth_append)
  moreover have "2 \<le> length (ring f)" using ne ring by (cases ?h) auto
  moreover have "set (snd g) \<subseteq> set df" using g(1) by (auto simp: job_groups_def)
  ultimately show ?thesis using len ring by auto
qed

theorem aggregate_ring_closed_witness:
  "aggregate ex_triangle = [\<lparr>label = ''J1'', ring = [(10, 10), (11, 10), (10, 11), (10, 10)]\<rparr>]
   \<and> hd [(10::int, 10::int), (11, 10), (10, 11), (10, 10)]
       = last [(10, 10), (11, 10), (10, 11), (10, 10)]"
proof -
  have a: "aggregate ex_triangle
           = [\<lparr>label = ''J1'', ring = [(10, 10), (11, 10), (10, 11), (10, 10)]\<rparr>]"
    by code_simp
  then have "\<lparr>label = ''J1'', ring = [(10::int, 10), (11, 10), (10, 11), (10, 10)]\<rparr>
             \<in> set (aggregate ex_triangle)"
    by simp
  from aggregate_ring_closed [OF this] a show ?thesis by simp
qed

text \<open>
  The end-to-end example of the specification: in the MR view the three rows of \<open>ex_spec\<close>
  yield three circle markers coloured green, red and green, and one hull feature for
  \<^verbatim>\<open>J1\<close> whose ring is the closed triangle through the three coordinates.
\<close>

theorem end_to_end_example:
  "map color (markers (fst (build_map ex_spec MR (None :: (string + unit) option))))
     = [''green'', ''red'', ''green'']
   \<and> hulls (fst (build_map ex_spec MR (None :: (string + unit) option)))
       = [\<lparr>label = ''J1'', ring = [(10, 10), (11, 10), (10, 11), (10, 10)]\<rparr>]"
  by code_simp

end
